theory Spec2Isabelle
  imports Main
begin

text \<open>
  A model of the router glue between Angular and NativeScript: the detached state cache
  and the decisions of \<open>NSRouteReuseStrategy\<close>, the \<open>detach\<close> and \<open>attach\<close> of
  \<open>PageRouterOutlet\<close>, and the child operations of \<open>actionBarMeta\<close>. Objects that are
  shared and mutated are referred to by reference, a natural number; every function takes
  the state it reads and returns the state it leaves. Trace logging is left out, but for
  the one log line that can throw.
\<close>

section \<open>Values of the host language\<close>

text \<open>
  The few JavaScript values that the reuse strategy stores in flags and returns from
  \<open>shouldDetach\<close>: \<open>undefined\<close>, \<open>null\<close> and the two booleans. Only \<open>true\<close> is truthy.
\<close>

datatype jsval = JUndefined | JNull | JBool bool

fun truthy :: "jsval \<Rightarrow> bool" where
  "truthy (JBool b) = b"
| "truthy JUndefined = False"
| "truthy JNull = False"

text \<open>Every \<open>throw\<close> of the modelled code, and the \<open>TypeError\<close> of a property read on
  \<open>undefined\<close> or \<open>null\<close>.\<close>

datatype error =
    NoComponentRef
  | KeysDontMatch string string
  | TypeError

section \<open>Route snapshots\<close>

text \<open>
  An \<open>ActivatedRouteSnapshot\<close> as far as the strategy reads it: its string form, the
  reference of its route configuration (\<open>None\<close> is \<open>null\<close>), the slot of the
  \<open>pageRouterActivatedSymbol\<close> marker and its parent.
\<close>

datatype snapshot =
  Snapshot (toString: string) (routeConfig: "nat option")
    (pageRouterActivated: jsval) (parent: "snapshot option")

fun pathFromRoot :: "snapshot \<Rightarrow> snapshot list" where
  "pathFromRoot (Snapshot s c m par) =
     (case par of None \<Rightarrow> [] | Some p \<Rightarrow> pathFromRoot p) @ [Snapshot s c m par]"

text \<open>\<open>Array.prototype.join\<close> on strings.\<close>

fun join :: "string \<Rightarrow> string list \<Rightarrow> string" where
  "join sep [] = []"
| "join sep [x] = x"
| "join sep (x # y # ys) = x @ sep @ join sep (y # ys)"

definition getSnapshotKey :: "snapshot \<Rightarrow> string" where
  "getSnapshotKey snapshot = join ''->'' (map toString (pathFromRoot snapshot))"

section \<open>The detached state cache\<close>

text \<open>A \<open>DetachedRouteHandle\<close> is opaque to the router; the cache reads its
  \<open>componentRef\<close>, which may be missing.\<close>

datatype DetachedRouteHandle = DetachedRouteHandle (componentRef: "nat option")

record CacheItem =
  key :: string
  state :: DetachedRouteHandle
  isModal :: bool

text \<open>
  The private array of \<open>DetachedStateCache\<close>, in array order: index 0 first, the most
  recently pushed item last. Every method takes the array and returns it after the call.
\<close>

type_synonym DetachedStateCache = "CacheItem list"

definition cache_length :: "DetachedStateCache \<Rightarrow> nat" where
  "cache_length c = length c"

definition push :: "CacheItem \<Rightarrow> DetachedStateCache \<Rightarrow> DetachedStateCache" where
  "push cacheItem c = c @ [cacheItem]"

text \<open>\<open>Array.prototype.pop\<close> returns \<open>undefined\<close> on the empty array and leaves it empty.\<close>

definition pop :: "DetachedStateCache \<Rightarrow> CacheItem option \<times> DetachedStateCache" where
  "pop c = (if c = [] then (None, c) else (Some (last c), butlast c))"

text \<open>Reading index \<open>length - 1\<close> of the empty array gives \<open>undefined\<close>.\<close>

definition peek :: "DetachedStateCache \<Rightarrow> CacheItem option \<times> DetachedStateCache" where
  "peek c = (if c = [] then None else Some (last c), c)"

text \<open>
  The loop of \<open>clearModalCache\<close>, entered with \<open>modalCacheCleared = false\<close>. The second
  argument is the list of component references handed to \<open>destroyComponentRef\<close> so far,
  oldest first. A \<open>throw\<close> leaves the array and that list as they are at that moment.
\<close>

function clearModalLoop ::
  "DetachedStateCache \<Rightarrow> nat list \<Rightarrow> error option \<times> DetachedStateCache \<times> nat list" where
  "clearModalLoop c d =
     (case fst (peek c) of
        None \<Rightarrow> (Some TypeError, c, d)
      | Some cacheItem \<Rightarrow>
          (case componentRef (state cacheItem) of
             None \<Rightarrow> (Some NoComponentRef, c, d)
           | Some r \<Rightarrow>
               if isModal cacheItem then (None, snd (pop c), d @ [r])
               else clearModalLoop (snd (pop c)) (d @ [r])))"
  by pat_completeness auto
termination
  by (relation "measure (\<lambda>(c, d). length c)") (auto simp: peek_def pop_def split: if_splits)

definition clearModalCache ::
  "DetachedStateCache \<Rightarrow> nat list \<Rightarrow> error option \<times> DetachedStateCache \<times> nat list" where
  "clearModalCache c d =
     (if list_ex isModal c then clearModalLoop c d else (None, c, d))"

section \<open>The route reuse strategy\<close>

text \<open>
  An \<open>Outlet\<close> of the location strategy, as far as the reuse strategy reads and writes
  it. Outlets are shared objects: they live in a heap indexed by reference, and
  \<open>outlet_parent\<close> is a reference (\<open>None\<close> when the outlet has no parent).
\<close>

record Outlet =
  isPageNavigationBack :: bool
  outlet_shouldDetach :: jsval
  outlet_parent :: "nat option"
  outletKeys :: "string list"

text \<open>
  What the strategy calls but does not define: \<open>findTopActivatedRouteNodeForOutlet\<close>
  of the outlet utilities, and \<open>getRouteFullPath\<close>, \<open>findOutlet\<close> and
  \<open>_modalNavigationDepth\<close> of the location strategy. They are parameters of the model.
\<close>

record env =
  findTopActivatedRouteNodeForOutlet :: "snapshot \<Rightarrow> snapshot"
  getRouteFullPath :: "snapshot \<Rightarrow> string"
  findOutlet :: "string \<Rightarrow> snapshot \<Rightarrow> nat option"
  modalNavigationDepth :: int

text \<open>
  What a read of \<open>cacheByOutlet[key]\<close> can give besides \<open>undefined\<close>: a cache that
  \<open>store\<close> created, or a member that the object inherits from \<open>Object.prototype\<close>. Such
  a member is a function, or for \<open>__proto__\<close> the prototype object itself: it is truthy
  and has no \<open>push\<close>, \<open>peek\<close> or \<open>pop\<close>.
\<close>

datatype property = Cache DetachedStateCache | ProtoMember

text \<open>The property names of \<open>Object.prototype\<close>, which every object literal inherits.\<close>

definition objectPrototypeMembers :: "string list" where
  "objectPrototypeMembers =
     [''constructor'', ''hasOwnProperty'', ''isPrototypeOf'', ''propertyIsEnumerable'',
      ''toLocaleString'', ''toString'', ''valueOf'', ''__proto__'',
      ''__defineGetter__'', ''__defineSetter__'', ''__lookupGetter__'', ''__lookupSetter__'']"

text \<open>
  \<open>cacheByOutlet\<close> is the object literal \<open>{}\<close>, kept as the map of its own properties.
  A read finds an own property first and an inherited member behind it.
\<close>

definition getProperty :: "(string \<Rightarrow> property option) \<Rightarrow> string \<Rightarrow> property option" where
  "getProperty own k =
     (case own k of
        Some v \<Rightarrow> Some v
      | None \<Rightarrow> if k \<in> set objectPrototypeMembers then Some ProtoMember else None)"

text \<open>
  The assignment \<open>cacheByOutlet[key] = v\<close> of \<open>store\<close>, where \<open>v\<close> is what was just read
  under the key, or a new cache when nothing was read. It writes an own property, but
  for the key \<open>__proto__\<close> on an object with no such own property: there the value read
  is the prototype, and assigning it sets the prototype to what it already is.
\<close>

definition setProperty ::
  "(string \<Rightarrow> property option) \<Rightarrow> string \<Rightarrow> property \<Rightarrow> (string \<Rightarrow> property option)" where
  "setProperty own k v = (if k = ''__proto__'' \<and> own k = None then own else own(k \<mapsto> v))"

text \<open>The mutable state: the own properties of the strategy's \<open>cacheByOutlet\<close> and the
  heap of outlets.\<close>

record world =
  cacheByOutlet :: "string \<Rightarrow> property option"
  outlets :: "nat \<Rightarrow> Outlet"

lemma size_parent: "parent route = Some p \<Longrightarrow> size p < size route"
  by (cases route) simp

text \<open>The loop \<open>while (!outlet)\<close> of \<open>findValidOutletAndKey\<close>, from its head; \<open>None\<close> is
  the early return with no outlet.\<close>

function outletLoop ::
  "env \<Rightarrow> snapshot \<Rightarrow> string \<Rightarrow> nat option \<Rightarrow> (snapshot \<times> string \<times> nat) option" where
  "outletLoop e route outletKey outlet =
     (case outlet of
        Some ol \<Rightarrow> Some (route, outletKey, ol)
      | None \<Rightarrow>
          (case parent route of
             None \<Rightarrow> None
           | Some p \<Rightarrow>
               outletLoop e p (getRouteFullPath e p) (findOutlet e (getRouteFullPath e p) p)))"
  by pat_completeness auto
termination
  by (relation "measure (\<lambda>(e, route, outletKey, outlet). size route)") (auto simp: size_parent)

text \<open>The loop \<open>while (!outlet.outletKeys.includes(outletKey))\<close>, from its head; \<open>None\<close>
  is the early return that falls back to the key of the target route.\<close>

function keyLoop :: "env \<Rightarrow> string list \<Rightarrow> snapshot \<Rightarrow> string \<Rightarrow> string option" where
  "keyLoop e keys route outletKey =
     (if outletKey \<in> set keys then Some outletKey
      else (case parent route of
              None \<Rightarrow> None
            | Some p \<Rightarrow> keyLoop e keys p (getRouteFullPath e p)))"
  by pat_completeness auto
termination
  by (relation "measure (\<lambda>(e, keys, route, outletKey). size route)") (auto simp: size_parent)

definition findValidOutletAndKey :: "env \<Rightarrow> world \<Rightarrow> snapshot \<Rightarrow> nat option \<times> string" where
  "findValidOutletAndKey e w targetRoute =
     (let routeOutletKey = getRouteFullPath e targetRoute in
      case outletLoop e targetRoute routeOutletKey (findOutlet e routeOutletKey targetRoute) of
        None \<Rightarrow> (None, routeOutletKey)
      | Some (route, outletKey, ol) \<Rightarrow>
          (case keyLoop e (outletKeys (outlets w ol)) route outletKey of
             None \<Rightarrow> (Some ol, routeOutletKey)
           | Some k \<Rightarrow> (Some ol, k)))"

text \<open>The marker loop of \<open>shouldDetach\<close>: the value left in \<open>isPageActivated\<close>.\<close>

fun isPageActivatedLoop :: "snapshot \<Rightarrow> jsval" where
  "isPageActivatedLoop (Snapshot s c m par) =
     (if truthy m then m
      else (case par of None \<Rightarrow> m | Some p \<Rightarrow> isPageActivatedLoop p))"

definition isBackOf :: "world \<Rightarrow> nat option \<Rightarrow> bool" where
  "isBackOf w outlet =
     (case outlet of Some ol \<Rightarrow> isPageNavigationBack (outlets w ol) | None \<Rightarrow> False)"

definition setShouldDetach :: "nat \<Rightarrow> jsval \<Rightarrow> world \<Rightarrow> world" where
  "setShouldDetach ol v w =
     w\<lparr>outlets := (outlets w)(ol := (outlets w ol)\<lparr>outlet_shouldDetach := v\<rparr>)\<rparr>"

definition shouldDetach :: "env \<Rightarrow> snapshot \<Rightarrow> world \<Rightarrow> jsval \<times> world" where
  "shouldDetach e route0 w =
     (let route = findTopActivatedRouteNodeForOutlet e route0;
          outlet = fst (findValidOutletAndKey e w route);
          isPageActivated = isPageActivatedLoop route;
          isBack = isBackOf w outlet
      in case outlet of
           None \<Rightarrow> (JNull, w)
         | Some ol \<Rightarrow>
             (let sd = (if \<not> isBack then isPageActivated else JBool False);
                  sd' = (case outlet_parent (outlets w ol) of
                           None \<Rightarrow> sd
                         | Some po \<Rightarrow>
                             if \<not> truthy (outlet_shouldDetach (outlets w po))
                             then JBool False else sd)
              in (sd', setShouldDetach ol sd' w)))"

text \<open>
  \<open>shouldAttach\<close>. On an inherited member the guard \<open>!cache\<close> does not return, and
  \<open>cache.peek()\<close> is a call of \<open>undefined\<close>; it is reached only when \<open>isBack\<close> holds.
\<close>

definition shouldAttach :: "env \<Rightarrow> snapshot \<Rightarrow> world \<Rightarrow> (error + bool) \<times> world" where
  "shouldAttach e route0 w =
     (let route = findTopActivatedRouteNodeForOutlet e route0;
          (outlet, outletKey) = findValidOutletAndKey e w route
      in case getProperty (cacheByOutlet w) outletKey of
           None \<Rightarrow> (Inr False, w)
         | Some cache \<Rightarrow>
             (let k = getSnapshotKey route;
                  isBack = isBackOf w outlet;
                  w' = (case outlet of None \<Rightarrow> w | Some ol \<Rightarrow> setShouldDetach ol (JBool True) w)
              in if \<not> isBack then (Inr False, w')
                 else (case cache of
                         ProtoMember \<Rightarrow> (Inl TypeError, w)
                       | Cache c \<Rightarrow>
                           (Inr (case fst (peek c) of None \<Rightarrow> False | Some it \<Rightarrow> key it = k),
                            w'))))"

text \<open>
  \<open>store\<close>. The first line reads the key, keeps what it finds or makes a new cache, and
  assigns that back; \<open>push\<close> and \<open>peek\<close> are then called on it, and on an inherited member
  each is a call of \<open>undefined\<close>.
\<close>

definition store ::
  "env \<Rightarrow> snapshot \<Rightarrow> DetachedRouteHandle option \<Rightarrow> world \<Rightarrow> error option \<times> world" where
  "store e route0 handle w =
     (let route = findTopActivatedRouteNodeForOutlet e route0;
          k = getSnapshotKey route;
          outletKey = snd (findValidOutletAndKey e w route);
          cache = (case getProperty (cacheByOutlet w) outletKey of
                     Some v \<Rightarrow> v | None \<Rightarrow> Cache []);
          w1 = w\<lparr>cacheByOutlet := setProperty (cacheByOutlet w) outletKey cache\<rparr>
      in case handle of
           Some h \<Rightarrow>
             (case cache of
                ProtoMember \<Rightarrow> (Some TypeError, w1)
              | Cache c \<Rightarrow>
                  (None, w1\<lparr>cacheByOutlet := (cacheByOutlet w1)(outletKey \<mapsto> Cache
                     (push \<lparr>key = k, state = h, isModal = (modalNavigationDepth e > 0)\<rparr> c))\<rparr>))
         | None \<Rightarrow>
             (case cache of
                ProtoMember \<Rightarrow> (Some TypeError, w1)
              | Cache c \<Rightarrow>
                  (case fst (peek c) of
                     None \<Rightarrow> (Some TypeError, w1)
                   | Some topItem \<Rightarrow>
                       if key topItem = k then
                         (let c' = snd (pop c) in
                          if cache_length c' = 0
                          then (None, w1\<lparr>cacheByOutlet := (cacheByOutlet w1)(outletKey := None)\<rparr>)
                          else (None, w1\<lparr>cacheByOutlet :=
                                           (cacheByOutlet w1)(outletKey \<mapsto> Cache c')\<rparr>))
                       else (Some (KeysDontMatch (key topItem) k), w1))))"

text \<open>\<open>retrieve\<close>. On an inherited member the guard \<open>!cache\<close> does not return and
  \<open>cache.peek()\<close> throws.\<close>

definition retrieve ::
  "env \<Rightarrow> snapshot \<Rightarrow> world \<Rightarrow> (error + DetachedRouteHandle option) \<times> world" where
  "retrieve e route0 w =
     (let route = findTopActivatedRouteNodeForOutlet e route0;
          (outlet, outletKey) = findValidOutletAndKey e w route
      in case getProperty (cacheByOutlet w) outletKey of
           None \<Rightarrow> (Inr None, w)
         | Some ProtoMember \<Rightarrow> (Inl TypeError, w)
         | Some (Cache c) \<Rightarrow>
             (let k = getSnapshotKey route;
                  isBack = isBackOf w outlet
              in case fst (peek c) of
                   None \<Rightarrow> (Inr None, w)
                 | Some cachedItem \<Rightarrow>
                     if isBack \<and> key cachedItem = k then (Inr (Some (state cachedItem)), w)
                     else (Inr None, w)))"

text \<open>\<open>shouldReuseRoute\<close> writes the marker slot of \<open>future\<close>; the snapshot is returned
  as it is after the call. The source's \<open>curr\<close> is \<open>current\<close> here.\<close>

definition shouldReuseRoute :: "snapshot \<Rightarrow> snapshot \<Rightarrow> bool \<times> snapshot" where
  "shouldReuseRoute future current =
     (let shouldReuse = (routeConfig future = routeConfig current) in
      if shouldReuse \<and> truthy (pageRouterActivated current)
      then (shouldReuse,
            Snapshot (toString future) (routeConfig future) (pageRouterActivated current)
              (parent future))
      else (shouldReuse, future))"

section \<open>The page router outlet\<close>

text \<open>
  What \<open>detach\<close> and \<open>attach\<close> do to objects other than the outlet itself, in call
  order. The natural number is the reference of the component or of the route.
  \<open>MarkActivatedRoute\<close> stands for the outlet's \<open>markActivatedRoute\<close>, which writes marker
  slots of route snapshots and reads only the location strategy.
\<close>

datatype effect =
    HostViewDetach nat
  | HostViewMarkForCheck nat
  | HostViewReattach nat
  | DetachEventsEmit nat
  | AttachEventsEmit nat
  | MarkActivatedRoute nat
  | FinishBackPageNavigation

text \<open>
  The activation state of a \<open>PageRouterOutlet\<close>: the fields \<open>activated\<close> and
  \<open>_activatedRoute\<close> (here \<open>priv_activatedRoute\<close>), both \<open>null\<close> at first, and the
  trace of effects.
\<close>

record PageRouterOutlet =
  activated :: "nat option"
  priv_activatedRoute :: "nat option"
  effects :: "effect list"

definition isActivated :: "PageRouterOutlet \<Rightarrow> bool" where
  "isActivated out = (activated out \<noteq> None)"

text \<open>
  \<open>detach\<close>. The first argument is \<open>NativeScriptDebug.isLogEnabled()\<close>: the log line
  calls \<open>routeToString(this._activatedRoute)\<close>, which reads \<open>pathFromRoot\<close> of the route
  and so throws when the route is \<open>null\<close>. The result \<open>Inr None\<close> is the bare \<open>return\<close>.
\<close>

definition detach ::
  "bool \<Rightarrow> PageRouterOutlet \<Rightarrow> (error + nat option) \<times> PageRouterOutlet" where
  "detach logEnabled out =
     (if \<not> isActivated out then (Inr None, out)
      else if logEnabled \<and> priv_activatedRoute out = None then (Inl TypeError, out)
      else (case activated out of
              None \<Rightarrow> (Inr None, out)
            | Some component \<Rightarrow>
                (Inr (Some component),
                 out\<lparr>activated := None, priv_activatedRoute := None,
                     effects := effects out @ [HostViewDetach component, DetachEventsEmit component]\<rparr>)))"

text \<open>
  \<open>attach\<close>. The first argument is the answer of \<open>isFinalPageRouterOutlet()\<close>, which
  walks the router's outlet contexts and touches nothing of the outlet.
\<close>

definition attach :: "bool \<Rightarrow> nat \<Rightarrow> nat \<Rightarrow> PageRouterOutlet \<Rightarrow> PageRouterOutlet" where
  "attach isFinal ref activatedRoute out =
     out\<lparr>activated := Some ref, priv_activatedRoute := Some activatedRoute,
         effects := effects out @
           [HostViewMarkForCheck ref, HostViewReattach ref, MarkActivatedRoute activatedRoute] @
           (if isFinal then [FinishBackPageNavigation] else []) @
           [AttachEventsEmit ref]\<rparr>"

section \<open>Children of the action bar\<close>

text \<open>
  A child node handed to \<open>actionBarMeta\<close>: its reference, the answers of the four type
  tests on it, taken in the order the code asks them, and its \<open>parentNode\<close>.
\<close>

record NgView =
  view_ref :: nat
  isInvisibleNode :: bool
  isNavigationButton :: bool
  isActionItem :: bool
  isView :: bool
  parentNode :: "nat option"

text \<open>
  The action bar: its reference, its two single slots and its \<open>actionItems\<close> collection.
  The collection is an object of the native toolkit; its type is a parameter.
\<close>

record 'c NgActionBar =
  bar_ref :: nat
  navigationButton :: "nat option"
  titleView :: "nat option"
  actionItems :: 'c

text \<open>The four methods of the toolkit's \<open>ActionItems\<close> that the code calls.\<close>

record 'c ActionItems =
  getItems :: "'c \<Rightarrow> nat list"
  setItems :: "nat list \<Rightarrow> 'c \<Rightarrow> 'c"
  addItem :: "nat \<Rightarrow> 'c \<Rightarrow> 'c"
  removeItem :: "nat \<Rightarrow> 'c \<Rightarrow> 'c"

text \<open>\<open>Array.prototype.indexOf\<close>: the first index of the element, or \<open>-1\<close>.\<close>

fun indexOf :: "'a list \<Rightarrow> 'a \<Rightarrow> int" where
  "indexOf [] x = - 1"
| "indexOf (y # ys) x =
     (if y = x then 0 else (let i = indexOf ys x in if i < 0 then - 1 else i + 1))"

text \<open>
  \<open>Array.prototype.splice(start, 0, item)\<close>: a negative \<open>start\<close> counts from the end and
  is clamped at 0, a \<open>start\<close> beyond the end is clamped at the length.
\<close>

definition splice_insert :: "'a list \<Rightarrow> int \<Rightarrow> 'a \<Rightarrow> 'a list" where
  "splice_insert xs start item =
     (let n = int (length xs);
          s = (if start < 0 then max (n + start) 0 else min start n)
      in take (nat s) xs @ item # drop (nat s) xs)"

definition insertActionItemBefore ::
  "'c ActionItems \<Rightarrow> 'c NgActionBar \<Rightarrow> nat \<Rightarrow> nat \<Rightarrow> 'c NgActionBar" where
  "insertActionItemBefore t bar item nxt =
     (let actionItemsCollection = getItems t (actionItems bar);
          indexToInsert = indexOf actionItemsCollection nxt
      in bar\<lparr>actionItems :=
               setItems t (splice_insert actionItemsCollection indexToInsert item)
                 (actionItems bar)\<rparr>)"

definition appendActionItem :: "'c ActionItems \<Rightarrow> 'c NgActionBar \<Rightarrow> nat \<Rightarrow> 'c NgActionBar" where
  "appendActionItem t bar item = bar\<lparr>actionItems := addItem t item (actionItems bar)\<rparr>"

text \<open>The argument \<open>nxt\<close> is the source's \<open>next\<close>; \<open>None\<close> is a falsy \<open>next\<close>.\<close>

definition addActionItem ::
  "'c ActionItems \<Rightarrow> 'c NgActionBar \<Rightarrow> nat \<Rightarrow> nat option \<Rightarrow> 'c NgActionBar" where
  "addActionItem t bar item nxt =
     (case nxt of
        Some n \<Rightarrow> insertActionItemBefore t bar item n
      | None \<Rightarrow> appendActionItem t bar item)"

text \<open>Both operations return the parent and the child as they are after the call.\<close>

definition insertChild ::
  "'c ActionItems \<Rightarrow> 'c NgActionBar \<Rightarrow> NgView \<Rightarrow> nat option \<Rightarrow> 'c NgActionBar \<times> NgView" where
  "insertChild t par child nxt =
     (if isInvisibleNode child then (par, child)
      else if isNavigationButton child then
        (par\<lparr>navigationButton := Some (view_ref child)\<rparr>,
         child\<lparr>parentNode := Some (bar_ref par)\<rparr>)
      else if isActionItem child then
        (addActionItem t par (view_ref child) nxt,
         child\<lparr>parentNode := Some (bar_ref par)\<rparr>)
      else if isView child then (par\<lparr>titleView := Some (view_ref child)\<rparr>, child)
      else (par, child))"

definition removeChild ::
  "'c ActionItems \<Rightarrow> 'c NgActionBar \<Rightarrow> NgView \<Rightarrow> 'c NgActionBar \<times> NgView" where
  "removeChild t par child =
     (if isInvisibleNode child then (par, child)
      else if isNavigationButton child then
        ((if navigationButton par = Some (view_ref child)
          then par\<lparr>navigationButton := None\<rparr> else par),
         child\<lparr>parentNode := None\<rparr>)
      else if isActionItem child then
        (par\<lparr>actionItems := removeItem t (view_ref child) (actionItems par)\<rparr>,
         child\<lparr>parentNode := None\<rparr>)
      else if isView child \<and> titleView par \<noteq> None \<and> titleView par = Some (view_ref child)
      then (par\<lparr>titleView := None\<rparr>, child)
      else (par, child))"

section \<open>Example inputs\<close>

text \<open>
  A root snapshot and a child below it that carries the marker; a location strategy
  that knows one outlet, reference 0, registered under the key of the root; and that
  outlet, with a given back-navigation state, flag and parent.
\<close>

definition ex_root :: snapshot where
  "ex_root = Snapshot ''root'' None JUndefined None"

definition ex_home :: snapshot where
  "ex_home = Snapshot ''home'' (Some 1) (JBool True) (Some ex_root)"

definition ex_env :: env where
  "ex_env = \<lparr>findTopActivatedRouteNodeForOutlet = (\<lambda>r. r),
             getRouteFullPath = toString,
             findOutlet = (\<lambda>k r. if k = ''root'' then Some 0 else None),
             modalNavigationDepth = 1\<rparr>"

definition ex_outlet :: "bool \<Rightarrow> jsval \<Rightarrow> nat option \<Rightarrow> Outlet" where
  "ex_outlet back flag par =
     \<lparr>isPageNavigationBack = back, outlet_shouldDetach = flag, outlet_parent = par,
      outletKeys = [''root'']\<rparr>"

definition ex_item :: "string \<Rightarrow> nat option \<Rightarrow> bool \<Rightarrow> CacheItem" where
  "ex_item k r modal = \<lparr>key = k, state = DetachedRouteHandle r, isModal = modal\<rparr>"

text \<open>An \<open>ActionItems\<close> collection that is its item array.\<close>

definition ex_items :: "nat list ActionItems" where
  "ex_items = \<lparr>getItems = (\<lambda>c. c), setItems = (\<lambda>xs c. xs),
               addItem = (\<lambda>x c. c @ [x]), removeItem = remove1\<rparr>"

definition ex_bar :: "nat option \<Rightarrow> nat list \<Rightarrow> nat list NgActionBar" where
  "ex_bar nav its = \<lparr>bar_ref = 0, navigationButton = nav, titleView = None, actionItems = its\<rparr>"

definition ex_view :: "nat \<Rightarrow> bool \<Rightarrow> bool \<Rightarrow> bool \<Rightarrow> NgView" where
  "ex_view r invisible nav item =
     \<lparr>view_ref = r, isInvisibleNode = invisible, isNavigationButton = nav,
      isActionItem = item, isView = True, parentNode = None\<rparr>"

definition ex_world_forward :: world where
  "ex_world_forward =
     \<lparr>cacheByOutlet = Map.empty,
      outlets = (\<lambda>i. if i = 0 then ex_outlet False (JBool False) (Some 1)
                     else ex_outlet False (JBool True) None)\<rparr>"

definition ex_world_back :: world where
  "ex_world_back =
     \<lparr>cacheByOutlet = [''root'' \<mapsto> Cache [ex_item ''root->home'' (Some 7) False]],
      outlets = (\<lambda>i. ex_outlet True (JBool False) None)\<rparr>"

text \<open>
  A route in an outlet named \<open>constructor\<close>: the location strategy knows the outlet,
  reference 0, under that key, and nothing has been stored yet.
\<close>

definition ex_named :: snapshot where
  "ex_named = Snapshot ''constructor'' (Some 2) (JBool True) None"

definition ex_env_named :: env where
  "ex_env_named = \<lparr>findTopActivatedRouteNodeForOutlet = (\<lambda>r. r),
                   getRouteFullPath = toString,
                   findOutlet = (\<lambda>k r. if k = ''constructor'' then Some 0 else None),
                   modalNavigationDepth = 0\<rparr>"

definition ex_world_named :: "bool \<Rightarrow> world" where
  "ex_world_named back =
     \<lparr>cacheByOutlet = Map.empty,
      outlets = (\<lambda>i. \<lparr>isPageNavigationBack = back, outlet_shouldDetach = JBool False,
                      outlet_parent = None, outletKeys = [''constructor'']\<rparr>)\<rparr>"

section \<open>Facts about the example inputs\<close>

lemma ex_home_key: "getSnapshotKey ex_home = ''root->home''"
  by (simp add: getSnapshotKey_def ex_home_def ex_root_def)


lemma ex_top: "findTopActivatedRouteNodeForOutlet ex_env r = r"
  by (simp add: ex_env_def)

lemma ex_home_outlet:
  "outletKeys (outlets w 0) = [''root''] \<Longrightarrow>
   findValidOutletAndKey ex_env w ex_home = (Some 0, ''root'')"
  by (simp add: findValidOutletAndKey_def ex_env_def ex_home_def ex_root_def Let_def)


lemma ex_keys_forward: "outletKeys (outlets ex_world_forward 0) = [''root'']"
  by (simp add: ex_world_forward_def ex_outlet_def)

lemma ex_keys_back: "outletKeys (outlets ex_world_back 0) = [''root'']"
  by (simp add: ex_world_back_def ex_outlet_def)

lemma ex_items_laws:
  "\<forall>xs c. getItems ex_items (setItems ex_items xs c) = xs"
  "\<forall>x c. getItems ex_items (addItem ex_items x c) = getItems ex_items c @ [x]"
  "\<forall>x c. getItems ex_items (removeItem ex_items x c) = remove1 x (getItems ex_items c)"
  by (simp_all add: ex_items_def)

lemma ex_top_named: "findTopActivatedRouteNodeForOutlet ex_env_named r = r"
  by (simp add: ex_env_named_def)

lemma ex_named_outlet:
  "findValidOutletAndKey ex_env_named (ex_world_named back) ex_named = (Some 0, ''constructor'')"
  by (simp add: findValidOutletAndKey_def ex_env_named_def ex_named_def ex_world_named_def Let_def)

lemma ex_named_key: "getProperty (cacheByOutlet (ex_world_named back)) ''constructor'' = Some ProtoMember"
  by (simp add: getProperty_def ex_world_named_def objectPrototypeMembers_def)

section \<open>The cache is a stack\<close>

text \<open>
  Claim C6. \<open>DetachedStateCache\<close> is a LIFO stack: pushing an item makes the length one
  more and makes \<open>peek\<close> return that item; \<open>pop\<close> after the push returns the item and
  leaves the cache as it was before the push; \<open>peek\<close> leaves the cache as it is.
\<close>

theorem DetachedStateCache_lifo:
  "cache_length (push x c) = cache_length c + 1
   \<and> fst (peek (push x c)) = Some x
   \<and> pop (push x c) = (Some x, c)
   \<and> snd (peek c) = c"
  by (simp add: cache_length_def push_def peek_def pop_def)

section \<open>Clearing the modal part of the cache\<close>

text \<open>One turn of the loop on a cache whose top item is known.\<close>

lemma clearModalLoop_top:
  "clearModalLoop (c @ [it]) d =
     (case componentRef (state it) of
        None \<Rightarrow> (Some NoComponentRef, c @ [it], d)
      | Some r \<Rightarrow> if isModal it then (None, c, d @ [r]) else clearModalLoop c (d @ [r]))"
  by (subst clearModalLoop.simps) (simp add: peek_def pop_def split: option.splits)

text \<open>
  The loop runs through the items above the topmost modal item when each of them has a
  component reference: reverse induction on those items.
\<close>

lemma clearModalLoop_upper:
  "\<not> list_ex isModal upper \<Longrightarrow>
   map (\<lambda>a. componentRef (state a)) upper = map Some refs \<Longrightarrow>
   clearModalLoop (base @ upper) d = clearModalLoop base (d @ rev refs)"
proof (induction upper arbitrary: refs d rule: rev_induct)
  case Nil
  then show ?case by simp
next
  case (snoc x xs)
  from snoc.prems(2) obtain rs r where refs: "refs = rs @ [r]"
    and rs: "map (\<lambda>a. componentRef (state a)) xs = map Some rs"
    and r: "componentRef (state x) = Some r"
    by (cases refs rule: rev_cases) auto
  from snoc.prems(1) have nm: "\<not> isModal x" "\<not> list_ex isModal xs" by simp_all
  have "clearModalLoop ((base @ xs) @ [x]) d = clearModalLoop (base @ xs) (d @ [r])"
    using clearModalLoop_top [of "base @ xs" x d] r nm by simp
  also have "\<dots> = clearModalLoop base ((d @ [r]) @ rev rs)"
    using snoc.IH [OF nm(2) rs] .
  finally show ?case using refs by simp
qed

text \<open>
  Claim C8, as amended. \<open>clearModalCache\<close> leaves the cache as it is, and destroys
  nothing, when no cached item is modal. Otherwise, when every item from the top of the
  stack down to and including the topmost modal item has a \<open>componentRef\<close>, it pops and
  destroys exactly those items, top first, and leaves every item below untouched. When
  an item in that range has no \<open>componentRef\<close>, it throws on reaching the first such
  item: the items above it are popped and destroyed, and it and every item below it stay
  cached.
\<close>

theorem clearModalCache_pops_modal:
  "(\<not> list_ex isModal c \<longrightarrow> clearModalCache c d = (None, c, d))
   \<and> (isModal m \<and> \<not> list_ex isModal upper \<and>
        map (\<lambda>a. componentRef (state a)) (m # upper) = map Some refs \<longrightarrow>
        clearModalCache (lower @ m # upper) d = (None, lower, d @ rev refs))
   \<and> (list_ex isModal (lower @ [x]) \<and> \<not> list_ex isModal upper \<and>
        componentRef (state x) = None \<and>
        map (\<lambda>a. componentRef (state a)) upper = map Some refs \<longrightarrow>
        clearModalCache (lower @ x # upper) d = (Some NoComponentRef, lower @ [x], d @ rev refs))"
proof (intro conjI impI)
  assume "\<not> list_ex isModal c"
  then show "clearModalCache c d = (None, c, d)" by (simp add: clearModalCache_def)
next
  assume a: "isModal m \<and> \<not> list_ex isModal upper \<and>
        map (\<lambda>a. componentRef (state a)) (m # upper) = map Some refs"
  then obtain r rs where refs: "refs = r # rs" and r: "componentRef (state m) = Some r"
    and rs: "map (\<lambda>a. componentRef (state a)) upper = map Some rs"
    by (cases refs) auto
  from a have "clearModalLoop ((lower @ [m]) @ upper) d = clearModalLoop (lower @ [m]) (d @ rev rs)"
    using clearModalLoop_upper [of upper rs "lower @ [m]" d] rs by blast
  also have "\<dots> = (None, lower, (d @ rev rs) @ [r])"
    using clearModalLoop_top [of lower m "d @ rev rs"] r a by simp
  finally have "clearModalLoop (lower @ m # upper) d = (None, lower, d @ rev refs)"
    using refs by simp
  moreover from a have "list_ex isModal (lower @ m # upper)" by simp
  ultimately show "clearModalCache (lower @ m # upper) d = (None, lower, d @ rev refs)"
    by (simp add: clearModalCache_def)
next
  assume a: "list_ex isModal (lower @ [x]) \<and> \<not> list_ex isModal upper \<and>
        componentRef (state x) = None \<and>
        map (\<lambda>a. componentRef (state a)) upper = map Some refs"
  then have "clearModalLoop ((lower @ [x]) @ upper) d = clearModalLoop (lower @ [x]) (d @ rev refs)"
    using clearModalLoop_upper [of upper refs "lower @ [x]" d] by blast
  also have "\<dots> = (Some NoComponentRef, lower @ [x], d @ rev refs)"
    using clearModalLoop_top [of lower x "d @ rev refs"] a by simp
  finally have "clearModalLoop (lower @ x # upper) d = (Some NoComponentRef, lower @ [x], d @ rev refs)"
    by simp
  moreover from a have "list_ex isModal (lower @ x # upper)" by auto
  ultimately show "clearModalCache (lower @ x # upper) d = (Some NoComponentRef, lower @ [x], d @ rev refs)"
    by (simp add: clearModalCache_def)
qed

theorem clearModalCache_pops_modal_witness:
  "clearModalCache [ex_item ''a'' (Some 1) False, ex_item ''b'' None False] [] =
     (None, [ex_item ''a'' (Some 1) False, ex_item ''b'' None False], [])
   \<and> clearModalCache
        [ex_item ''a'' None False, ex_item ''b'' (Some 2) True, ex_item ''c'' (Some 3) False] [] =
     (None, [ex_item ''a'' None False], [3, 2])
   \<and> clearModalCache
        [ex_item ''a'' (Some 1) True, ex_item ''b'' None False, ex_item ''c'' (Some 3) False] [] =
     (Some NoComponentRef, [ex_item ''a'' (Some 1) True, ex_item ''b'' None False], [3])"
proof -
  have h1: "\<not> list_ex isModal [ex_item ''a'' (Some 1) False, ex_item ''b'' None False]"
    by (simp add: ex_item_def)
  have h2: "isModal (ex_item ''b'' (Some 2) True) \<and> \<not> list_ex isModal [ex_item ''c'' (Some 3) False] \<and>
      map (\<lambda>a. componentRef (state a)) [ex_item ''b'' (Some 2) True, ex_item ''c'' (Some 3) False] =
        map Some [2, 3]"
    by (simp add: ex_item_def)
  have h3: "list_ex isModal ([ex_item ''a'' (Some 1) True] @ [ex_item ''b'' None False]) \<and>
      \<not> list_ex isModal [ex_item ''c'' (Some 3) False] \<and>
      componentRef (state (ex_item ''b'' None False)) = None \<and>
      map (\<lambda>a. componentRef (state a)) [ex_item ''c'' (Some 3) False] = map Some [3]"
    by (simp add: ex_item_def)
  note t1 = clearModalCache_pops_modal
    [where c = "[ex_item ''a'' (Some 1) False, ex_item ''b'' None False]" and d = "[]",
     THEN conjunct1, rule_format, OF h1]
  note t2 = clearModalCache_pops_modal
    [where m = "ex_item ''b'' (Some 2) True" and upper = "[ex_item ''c'' (Some 3) False]"
       and refs = "[2, 3]" and lower = "[ex_item ''a'' None False]" and d = "[]",
     THEN conjunct2, THEN conjunct1, rule_format, OF h2]
  note t3 = clearModalCache_pops_modal
    [where x = "ex_item ''b'' None False" and upper = "[ex_item ''c'' (Some 3) False]"
       and refs = "[3]" and lower = "[ex_item ''a'' (Some 1) True]" and d = "[]",
     THEN conjunct2, THEN conjunct2, rule_format, OF h3]
  from t1 t2 t3 show ?thesis by simp
qed

text \<open>
  The claim without the condition on \<open>componentRef\<close> fails: the guard of the loop throws
  at the first item that has none. Here the top item \<open>c\<close> is popped and destroyed, the
  modal item \<open>b\<close> below it has no \<open>componentRef\<close>, and the call ends in the error with
  \<open>b\<close> still cached.
\<close>

theorem clearModalCache_throws_counterexample:
  "list_ex isModal [ex_item ''a'' (Some 1) False, ex_item ''b'' None True, ex_item ''c'' (Some 3) False]
   \<and> clearModalCache
        [ex_item ''a'' (Some 1) False, ex_item ''b'' None True, ex_item ''c'' (Some 3) False] [] =
     (Some NoComponentRef, [ex_item ''a'' (Some 1) False, ex_item ''b'' None True], [3])"
  by (simp add: clearModalCache_def clearModalLoop.simps peek_def pop_def ex_item_def)

section \<open>Decisions of the reuse strategy\<close>

text \<open>
  \<open>findValidOutletAndKey\<close> finds no outlet exactly when the location strategy has none
  for the route and for each of its ancestors.
\<close>

lemma findOutlet_along_path:
  "outletLoop e r (getRouteFullPath e r) (findOutlet e (getRouteFullPath e r) r) = None \<longleftrightarrow>
     (\<forall>a \<in> set (pathFromRoot r). findOutlet e (getRouteFullPath e a) a = None)"
proof (induction r rule: pathFromRoot.induct)
  case (1 s c m par)
  show ?case
  proof (cases par)
    case None
    then show ?thesis by (cases "findOutlet e (getRouteFullPath e (Snapshot s c m par)) (Snapshot s c m par)") auto
  next
    case (Some p)
    with 1 show ?thesis
      by (cases "findOutlet e (getRouteFullPath e (Snapshot s c m par)) (Snapshot s c m par)") auto
  qed
qed

lemma findValidOutletAndKey_no_outlet:
  "fst (findValidOutletAndKey e w r) = None \<longleftrightarrow>
     (\<forall>a \<in> set (pathFromRoot r). findOutlet e (getRouteFullPath e a) a = None)"
proof -
  have "fst (findValidOutletAndKey e w r) = None \<longleftrightarrow>
      outletLoop e r (getRouteFullPath e r) (findOutlet e (getRouteFullPath e r) r) = None"
    by (simp add: findValidOutletAndKey_def Let_def split: option.splits prod.splits
          del: outletLoop.simps keyLoop.simps)
  then show ?thesis by (simp only: findOutlet_along_path)
qed

lemma truthy_iff: "truthy v \<longleftrightarrow> v = JBool True"
  by (cases v) auto

text \<open>The marker loop ends on a truthy value exactly when the route or one of its
  ancestors carries a truthy marker.\<close>

lemma isPageActivatedLoop_truthy:
  "truthy (isPageActivatedLoop r) \<longleftrightarrow> (\<exists>a \<in> set (pathFromRoot r). truthy (pageRouterActivated a))"
  by (induction r rule: isPageActivatedLoop.induct) (auto split: option.splits)

text \<open>Reading \<open>cacheByOutlet\<close>: a cache is always an own property, and nothing is
  read only where nothing is stored and nothing is inherited.\<close>

lemma getProperty_Cache:
  "getProperty own k = Some (Cache c) \<longleftrightarrow> own k = Some (Cache c)"
  by (simp add: getProperty_def split: option.splits)

lemma getProperty_None:
  "getProperty own k = None \<longleftrightarrow> own k = None \<and> k \<notin> set objectPrototypeMembers"
  by (simp add: getProperty_def split: option.splits)


text \<open>
  What \<open>retrieve\<close> does in every state. Let \<open>route\<close> be the route as
  \<open>findTopActivatedRouteNodeForOutlet\<close> resolves it, and \<open>outlet\<close>, \<open>outletKey\<close> what
  \<open>findValidOutletAndKey\<close> finds for it. It returns the handle of the item at the top of
  the cache of \<open>outletKey\<close> exactly when the outlet is in a page back navigation and the
  key of that item is the snapshot key of \<open>route\<close>. Where the key does not read as an
  inherited member it returns \<open>null\<close> in every other case; where it does, it throws. It
  never changes the state.
\<close>

lemma retrieve_top_on_back:
  assumes "route = findTopActivatedRouteNodeForOutlet e route0"
    and "findValidOutletAndKey e w route = (outlet, outletKey)"
  shows "(fst (retrieve e route0 w) = Inr (Some h) \<longleftrightarrow>
           (\<exists>ol cache it. outlet = Some ol \<and> isPageNavigationBack (outlets w ol) \<and>
              cacheByOutlet w outletKey = Some (Cache cache) \<and> fst (peek cache) = Some it \<and>
              key it = getSnapshotKey route \<and> state it = h))
       \<and> (getProperty (cacheByOutlet w) outletKey \<noteq> Some ProtoMember \<longrightarrow>
            (fst (retrieve e route0 w) = Inr None \<longleftrightarrow>
             \<not> (\<exists>ol cache it. outlet = Some ol \<and> isPageNavigationBack (outlets w ol) \<and>
                cacheByOutlet w outletKey = Some (Cache cache) \<and> fst (peek cache) = Some it \<and>
                key it = getSnapshotKey route)))
       \<and> (getProperty (cacheByOutlet w) outletKey = Some ProtoMember \<longrightarrow>
            fst (retrieve e route0 w) = Inl TypeError)
       \<and> snd (retrieve e route0 w) = w"
proof -
  consider (none) "getProperty (cacheByOutlet w) outletKey = None"
    | (member) "getProperty (cacheByOutlet w) outletKey = Some ProtoMember"
    | (cache) c where "getProperty (cacheByOutlet w) outletKey = Some (Cache c)"
    by (cases "getProperty (cacheByOutlet w) outletKey") (auto intro: property.exhaust)
  then show ?thesis
  proof cases
    case none
    then have "cacheByOutlet w outletKey = None" by (simp add: getProperty_None)
    with none assms show ?thesis by (simp add: retrieve_def)
  next
    case member
    then have "\<And>c. cacheByOutlet w outletKey \<noteq> Some (Cache c)"
      using getProperty_Cache [of "cacheByOutlet w" outletKey] by auto
    with member assms show ?thesis by (simp add: retrieve_def)
  next
    case cache
    then have "cacheByOutlet w outletKey = Some (Cache c)" by (simp add: getProperty_Cache)
    with cache assms show ?thesis
      by (auto simp: retrieve_def isBackOf_def Let_def split: option.splits)
  qed
qed

lemma retrieve_top_on_back_example:
  "findValidOutletAndKey ex_env ex_world_back ex_home = (Some 0, ''root'')
   \<and> fst (retrieve ex_env ex_home ex_world_back) = Inr (Some (DetachedRouteHandle (Some 7)))
   \<and> snd (retrieve ex_env ex_home ex_world_back) = ex_world_back"
proof -
  have fv: "findValidOutletAndKey ex_env ex_world_back ex_home = (Some 0, ''root'')"
    by (rule ex_home_outlet [OF ex_keys_back])
  have top: "\<exists>ol cache it. Some (0::nat) = Some ol \<and> isPageNavigationBack (outlets ex_world_back ol) \<and>
      cacheByOutlet ex_world_back ''root'' = Some (Cache cache) \<and> fst (peek cache) = Some it \<and>
      key it = getSnapshotKey ex_home \<and> state it = DetachedRouteHandle (Some 7)"
    by (simp add: ex_world_back_def ex_outlet_def ex_item_def peek_def ex_home_key)
  note th = retrieve_top_on_back [OF ex_top [symmetric] fv, of "DetachedRouteHandle (Some 7)"]
  from th [THEN conjunct1] top
  have "fst (retrieve ex_env ex_home ex_world_back) = Inr (Some (DetachedRouteHandle (Some 7)))"
    by (simp only:)
  with fv th [THEN conjunct2, THEN conjunct2, THEN conjunct2] show ?thesis by (intro conjI)
qed

text \<open>
  Claim C1 says that \<open>retrieve\<close> returns the handle at the top of the cache exactly when
  the outlet is in a page back navigation and the keys agree, and in every other case,
  no cache for the resolved outlet key among them, returns \<open>null\<close> and leaves the cache
  unchanged. For a route in an outlet named \<open>constructor\<close>, with nothing stored, no
  cache exists for the key; yet the read gives the inherited \<open>constructor\<close> function, the
  guard \<open>if (!cache)\<close> does not return, and \<open>cache.peek()\<close> throws, in back navigation
  and out of it.
\<close>

theorem retrieve_inherited_key_throws:
  "findValidOutletAndKey ex_env_named (ex_world_named True) ex_named = (Some 0, ''constructor'')
   \<and> cacheByOutlet (ex_world_named True) ''constructor'' = None
   \<and> retrieve ex_env_named ex_named (ex_world_named True) = (Inl TypeError, ex_world_named True)
   \<and> retrieve ex_env_named ex_named (ex_world_named False) = (Inl TypeError, ex_world_named False)"
  by (simp add: ex_named_outlet retrieve_def ex_top_named ex_named_key)
     (simp add: ex_world_named_def)

text \<open>
  Claim C2. \<open>shouldDetach\<close> returns \<open>true\<close> only when (indeed exactly when) a valid
  outlet is found for the route, that outlet is not in a page back navigation, the route
  or one of its ancestors carries the marker, and the parent of the outlet, when there is
  one, has its \<open>shouldDetach\<close> flag set. Whenever a valid outlet is found, the decision is
  written to the flag of that outlet, and nothing else changes.
\<close>

theorem shouldDetach_decision:
  assumes "route = findTopActivatedRouteNodeForOutlet e route0"
    and "outlet = fst (findValidOutletAndKey e w route)"
  shows "(fst (shouldDetach e route0 w) = JBool True \<longleftrightarrow>
           (\<exists>ol. outlet = Some ol \<and> \<not> isPageNavigationBack (outlets w ol) \<and>
              (\<exists>a \<in> set (pathFromRoot route). truthy (pageRouterActivated a)) \<and>
              (\<forall>po. outlet_parent (outlets w ol) = Some po \<longrightarrow>
                 truthy (outlet_shouldDetach (outlets w po)))))
       \<and> (\<forall>ol. outlet = Some ol \<longrightarrow>
             outlets (snd (shouldDetach e route0 w)) =
               (outlets w)(ol := (outlets w ol)\<lparr>outlet_shouldDetach := fst (shouldDetach e route0 w)\<rparr>)
             \<and> cacheByOutlet (snd (shouldDetach e route0 w)) = cacheByOutlet w)"
  using assms isPageActivatedLoop_truthy [of route]
  by (auto simp: shouldDetach_def isBackOf_def setShouldDetach_def Let_def truthy_iff split: option.splits)

theorem shouldDetach_decision_witness:
  "fst (findValidOutletAndKey ex_env ex_world_forward ex_home) = Some 0
   \<and> fst (shouldDetach ex_env ex_home ex_world_forward) = JBool True
   \<and> outlet_shouldDetach (outlets (snd (shouldDetach ex_env ex_home ex_world_forward)) 0) = JBool True"
proof -
  have fv: "Some 0 = fst (findValidOutletAndKey ex_env ex_world_forward ex_home)"
    by (simp add: ex_home_outlet [OF ex_keys_forward])
  note th = shouldDetach_decision [OF ex_top [symmetric] fv]
  have cond: "\<exists>ol. Some (0::nat) = Some ol \<and> \<not> isPageNavigationBack (outlets ex_world_forward ol) \<and>
      (\<exists>a \<in> set (pathFromRoot ex_home). truthy (pageRouterActivated a)) \<and>
      (\<forall>po. outlet_parent (outlets ex_world_forward ol) = Some po \<longrightarrow>
         truthy (outlet_shouldDetach (outlets ex_world_forward po)))"
    by (simp add: ex_world_forward_def ex_outlet_def ex_home_def ex_root_def)
  from th cond have r: "fst (shouldDetach ex_env ex_home ex_world_forward) = JBool True"
    by blast
  from th have "outlets (snd (shouldDetach ex_env ex_home ex_world_forward)) =
      (outlets ex_world_forward)(0 := (outlets ex_world_forward 0)
         \<lparr>outlet_shouldDetach := fst (shouldDetach ex_env ex_home ex_world_forward)\<rparr>)"
    by blast
  with r fv show ?thesis by simp
qed

text \<open>
  Claim C3, as amended. \<open>shouldAttach\<close> returns \<open>true\<close> exactly when a cache exists for
  the resolved outlet key, the resolved outlet is in a page back navigation, and the key
  of the top cached item is the snapshot key of the route. When the read of the outlet
  key gives nothing, it returns \<open>false\<close> and changes nothing, the flag of the outlet
  included. When a cache exists and a valid outlet is found, it returns normally and
  sets the \<open>shouldDetach\<close> flag of that outlet to \<open>true\<close>, whatever it returns.
\<close>

theorem shouldAttach_decision:
  assumes "route = findTopActivatedRouteNodeForOutlet e route0"
    and "findValidOutletAndKey e w route = (outlet, outletKey)"
  shows "(fst (shouldAttach e route0 w) = Inr True \<longleftrightarrow>
           (\<exists>ol cache it. outlet = Some ol \<and> isPageNavigationBack (outlets w ol) \<and>
              cacheByOutlet w outletKey = Some (Cache cache) \<and> fst (peek cache) = Some it \<and>
              key it = getSnapshotKey route))
       \<and> (getProperty (cacheByOutlet w) outletKey = None \<longrightarrow>
             shouldAttach e route0 w = (Inr False, w))
       \<and> (\<forall>ol cache. outlet = Some ol \<and> cacheByOutlet w outletKey = Some (Cache cache) \<longrightarrow>
             (\<exists>b. fst (shouldAttach e route0 w) = Inr b)
             \<and> outlets (snd (shouldAttach e route0 w)) =
               (outlets w)(ol := (outlets w ol)\<lparr>outlet_shouldDetach := JBool True\<rparr>)
             \<and> cacheByOutlet (snd (shouldAttach e route0 w)) = cacheByOutlet w)"
proof -
  consider (none) "getProperty (cacheByOutlet w) outletKey = None"
    | (member) "getProperty (cacheByOutlet w) outletKey = Some ProtoMember"
    | (cache) c where "getProperty (cacheByOutlet w) outletKey = Some (Cache c)"
    by (cases "getProperty (cacheByOutlet w) outletKey") (auto intro: property.exhaust)
  then show ?thesis
  proof cases
    case none
    then have "cacheByOutlet w outletKey = None" by (simp add: getProperty_None)
    with none assms show ?thesis by (simp add: shouldAttach_def)
  next
    case member
    then have "\<And>c. cacheByOutlet w outletKey \<noteq> Some (Cache c)"
      using getProperty_Cache [of "cacheByOutlet w" outletKey] by auto
    with member assms show ?thesis by (simp add: shouldAttach_def Let_def)
  next
    case cache
    then have "cacheByOutlet w outletKey = Some (Cache c)" by (simp add: getProperty_Cache)
    with cache assms show ?thesis
      by (auto simp: shouldAttach_def isBackOf_def setShouldDetach_def Let_def split: option.splits)
  qed
qed

theorem shouldAttach_decision_witness:
  "findValidOutletAndKey ex_env ex_world_back ex_home = (Some 0, ''root'')
   \<and> fst (shouldAttach ex_env ex_home ex_world_back) = Inr True
   \<and> outlet_shouldDetach (outlets (snd (shouldAttach ex_env ex_home ex_world_back)) 0) = JBool True
   \<and> findValidOutletAndKey ex_env ex_world_forward ex_home = (Some 0, ''root'')
   \<and> shouldAttach ex_env ex_home ex_world_forward = (Inr False, ex_world_forward)"
proof -
  have fb: "findValidOutletAndKey ex_env ex_world_back ex_home = (Some 0, ''root'')"
    by (rule ex_home_outlet [OF ex_keys_back])
  have ff: "findValidOutletAndKey ex_env ex_world_forward ex_home = (Some 0, ''root'')"
    by (rule ex_home_outlet [OF ex_keys_forward])
  note tb = shouldAttach_decision [OF ex_top [symmetric] fb]
  note tf = shouldAttach_decision [OF ex_top [symmetric] ff]
  have cache: "Some (0::nat) = Some 0 \<and>
      cacheByOutlet ex_world_back ''root'' = Some (Cache [ex_item ''root->home'' (Some 7) False])"
    by (simp add: ex_world_back_def)
  have cond: "\<exists>ol cache it. Some (0::nat) = Some ol \<and> isPageNavigationBack (outlets ex_world_back ol) \<and>
      cacheByOutlet ex_world_back ''root'' = Some (Cache cache) \<and> fst (peek cache) = Some it \<and>
      key it = getSnapshotKey ex_home"
    by (simp add: ex_world_back_def ex_outlet_def ex_item_def peek_def ex_home_key)
  from tb [THEN conjunct1] cond have r: "fst (shouldAttach ex_env ex_home ex_world_back) = Inr True"
    by (simp only:)
  from tb [THEN conjunct2, THEN conjunct2, rule_format, OF cache]
  have "outlets (snd (shouldAttach ex_env ex_home ex_world_back)) =
      (outlets ex_world_back)(0 := (outlets ex_world_back 0)\<lparr>outlet_shouldDetach := JBool True\<rparr>)"
    by (elim conjE)
  then have fl: "outlet_shouldDetach (outlets (snd (shouldAttach ex_env ex_home ex_world_back)) 0) = JBool True"
    by simp
  have none: "getProperty (cacheByOutlet ex_world_forward) ''root'' = None"
    by (simp add: ex_world_forward_def getProperty_def objectPrototypeMembers_def)
  note n = tf [THEN conjunct2, THEN conjunct1, rule_format, OF none]
  from fb ff r fl n show ?thesis by (intro conjI)
qed

text \<open>
  The flag is not set whenever a valid outlet is found: with nothing under the outlet
  key, the early \<open>return false\<close> comes before the assignment. Here the outlet is found,
  its flag is \<open>false\<close> before the call and still \<open>false\<close> after it.
\<close>

theorem shouldAttach_flag_counterexample:
  "fst (findValidOutletAndKey ex_env ex_world_forward ex_home) = Some 0
   \<and> outlet_shouldDetach (outlets ex_world_forward 0) = JBool False
   \<and> fst (shouldAttach ex_env ex_home ex_world_forward) = Inr False
   \<and> outlet_shouldDetach (outlets (snd (shouldAttach ex_env ex_home ex_world_forward)) 0) = JBool False"
  by (simp add: ex_home_outlet [OF ex_keys_forward] shouldAttach_def ex_top)
     (simp add: ex_world_forward_def ex_outlet_def getProperty_def objectPrototypeMembers_def)

text \<open>
  What \<open>store\<close> does with a handle that is not \<open>null\<close>, where the outlet key does not
  read as an inherited member: it returns normally and pushes one entry onto the cache
  of the key, a cache that is created empty when there was none. The entry holds the
  snapshot key of the route and the handle, and is modal exactly when
  \<open>_modalNavigationDepth\<close> is greater than zero. The other own properties, and the
  outlets, are unchanged.
\<close>

lemma store_handle_pushes:
  assumes "route = findTopActivatedRouteNodeForOutlet e route0"
    and "outletKey = snd (findValidOutletAndKey e w route)"
    and "getProperty (cacheByOutlet w) outletKey \<noteq> Some ProtoMember"
    and "old = (case cacheByOutlet w outletKey of Some (Cache c) \<Rightarrow> c | _ \<Rightarrow> [])"
  shows "fst (store e route0 (Some h) w) = None
       \<and> cacheByOutlet (snd (store e route0 (Some h) w)) outletKey =
           Some (Cache (push \<lparr>key = getSnapshotKey route, state = h,
                              isModal = (modalNavigationDepth e > 0)\<rparr> old))
       \<and> (\<forall>k'. k' \<noteq> outletKey \<longrightarrow>
             cacheByOutlet (snd (store e route0 (Some h) w)) k' = cacheByOutlet w k')
       \<and> outlets (snd (store e route0 (Some h) w)) = outlets w"
proof -
  consider (none) "getProperty (cacheByOutlet w) outletKey = None"
    | (cache) c where "getProperty (cacheByOutlet w) outletKey = Some (Cache c)"
    using assms(3)
    by (cases "getProperty (cacheByOutlet w) outletKey") (auto intro: property.exhaust)
  then show ?thesis
  proof cases
    case none
    then have "cacheByOutlet w outletKey = None" by (simp add: getProperty_None)
    with none assms show ?thesis by (simp add: store_def Let_def setProperty_def)
  next
    case cache
    then have "cacheByOutlet w outletKey = Some (Cache c)" by (simp add: getProperty_Cache)
    with cache assms show ?thesis by (simp add: store_def Let_def setProperty_def)
  qed
qed

lemma store_handle_pushes_example:
  "fst (store ex_env ex_home (Some (DetachedRouteHandle (Some 9))) ex_world_forward) = None
   \<and> cacheByOutlet (snd (store ex_env ex_home (Some (DetachedRouteHandle (Some 9))) ex_world_forward))
        ''root'' = Some (Cache [ex_item ''root->home'' (Some 9) True])
   \<and> cacheByOutlet (snd (store ex_env ex_home (Some (DetachedRouteHandle (Some 9))) ex_world_forward))
        ''other'' = cacheByOutlet ex_world_forward ''other''"
proof -
  have k: "''root'' = snd (findValidOutletAndKey ex_env ex_world_forward ex_home)"
    by (simp add: ex_home_outlet [OF ex_keys_forward])
  have g: "getProperty (cacheByOutlet ex_world_forward) ''root'' \<noteq> Some ProtoMember"
    by (simp add: ex_world_forward_def getProperty_def objectPrototypeMembers_def)
  have old: "[] = (case cacheByOutlet ex_world_forward ''root'' of Some (Cache c) \<Rightarrow> c | _ \<Rightarrow> [])"
    by (simp add: ex_world_forward_def)
  note th = store_handle_pushes [OF ex_top [symmetric] k g old, of "DetachedRouteHandle (Some 9)"]
  note p1 = th [THEN conjunct1]
  note p2 = th [THEN conjunct2, THEN conjunct1]
  note p3 = th [THEN conjunct2, THEN conjunct2, THEN conjunct1, rule_format, of "''other''"]
  have ne: "''other'' \<noteq> ''root''" by simp
  have item: "push \<lparr>key = getSnapshotKey ex_home, state = DetachedRouteHandle (Some 9),
                    isModal = (modalNavigationDepth ex_env > 0)\<rparr> [] =
              [ex_item ''root->home'' (Some 9) True]"
    by (simp add: push_def ex_item_def ex_home_key ex_env_def)
  show ?thesis
    using p1 p2 p3 [OF ne] by (simp only: item simp_thms)
qed

text \<open>
  Where the outlet key reads as an inherited member, \<open>store\<close> throws for every handle,
  and the key reads as that member afterwards: no cache is ever created under it.
\<close>

lemma store_inherited_key_no_cache:
  assumes ok: "outletKey = snd (findValidOutletAndKey e w (findTopActivatedRouteNodeForOutlet e route0))"
    and g: "getProperty (cacheByOutlet w) outletKey = Some ProtoMember"
  shows "fst (store e route0 handle w) = Some TypeError
       \<and> getProperty (cacheByOutlet (snd (store e route0 handle w))) outletKey = Some ProtoMember"
proof -
  have s: "store e route0 handle w =
      (Some TypeError, w\<lparr>cacheByOutlet := setProperty (cacheByOutlet w) outletKey ProtoMember\<rparr>)"
    using ok g by (cases handle) (simp_all add: store_def Let_def)
  have "getProperty (setProperty (cacheByOutlet w) outletKey ProtoMember) outletKey = Some ProtoMember"
    using g by (auto simp: setProperty_def getProperty_def split: option.splits if_splits)
  with s show ?thesis by simp
qed

text \<open>
  Claim C4 says that for every route and every handle that is not \<open>null\<close>, \<open>store\<close>
  pushes one entry onto the cache of the resolved outlet key, creating the cache when
  there is none. For a route in an outlet named \<open>constructor\<close>, with nothing stored, the
  first line of \<open>store\<close> reads the inherited \<open>constructor\<close> function, keeps it in place of
  a new cache and assigns it back as an own property; \<open>cache.push\<close> is then a call of
  \<open>undefined\<close>. \<open>store\<close> throws, and no cache and no entry exist afterwards.
\<close>

theorem store_inherited_key_throws:
  "snd (findValidOutletAndKey ex_env_named (ex_world_named False) ex_named) = ''constructor''
   \<and> cacheByOutlet (ex_world_named False) ''constructor'' = None
   \<and> store ex_env_named ex_named (Some (DetachedRouteHandle (Some 9))) (ex_world_named False) =
       (Some TypeError,
        (ex_world_named False)\<lparr>cacheByOutlet := [''constructor'' \<mapsto> ProtoMember]\<rparr>)"
  by (simp add: ex_named_outlet store_def ex_top_named ex_named_key setProperty_def)
     (simp add: ex_world_named_def)



text \<open>
  Claim C7. \<open>shouldReuseRoute\<close> returns \<open>true\<close> exactly when the two snapshots hold
  the same \<open>routeConfig\<close> reference (two \<open>null\<close>s are the same reference). When it
  returns \<open>true\<close> and the current snapshot carries the marker, the marker is copied to
  the future snapshot and nothing else of it changes; otherwise the future snapshot is
  unchanged.
\<close>

theorem shouldReuseRoute_spec:
  "fst (shouldReuseRoute future current) = (routeConfig future = routeConfig current)
   \<and> (routeConfig future = routeConfig current \<and> truthy (pageRouterActivated current) \<longrightarrow>
        pageRouterActivated (snd (shouldReuseRoute future current)) = pageRouterActivated current
        \<and> toString (snd (shouldReuseRoute future current)) = toString future
        \<and> routeConfig (snd (shouldReuseRoute future current)) = routeConfig future
        \<and> parent (snd (shouldReuseRoute future current)) = parent future)
   \<and> (\<not> (routeConfig future = routeConfig current \<and> truthy (pageRouterActivated current)) \<longrightarrow>
        snd (shouldReuseRoute future current) = future)"
  by (auto simp: shouldReuseRoute_def Let_def)

theorem shouldReuseRoute_spec_witness:
  "shouldReuseRoute (Snapshot ''next'' (Some 1) JUndefined None) ex_home =
     (True, Snapshot ''next'' (Some 1) (JBool True) None)
   \<and> shouldReuseRoute ex_root ex_home = (False, ex_root)"
proof -
  note t1 = shouldReuseRoute_spec [of "Snapshot ''next'' (Some 1) JUndefined None" ex_home]
  note t2 = shouldReuseRoute_spec [of ex_root ex_home]
  have c1: "routeConfig (Snapshot ''next'' (Some 1) JUndefined None) = routeConfig ex_home \<and>
      truthy (pageRouterActivated ex_home)"
    by (simp add: ex_home_def)
  have c2: "\<not> (routeConfig ex_root = routeConfig ex_home \<and> truthy (pageRouterActivated ex_home))"
    by (simp add: ex_home_def ex_root_def)
  from t2 c2 have b: "snd (shouldReuseRoute ex_root ex_home) = ex_root"
    and b': "fst (shouldReuseRoute ex_root ex_home) = (routeConfig ex_root = routeConfig ex_home)"
    by blast+
  from t1 c1 have a: "fst (shouldReuseRoute (Snapshot ''next'' (Some 1) JUndefined None) ex_home)"
    and a': "pageRouterActivated (snd (shouldReuseRoute (Snapshot ''next'' (Some 1) JUndefined None) ex_home)) = pageRouterActivated ex_home"
      "toString (snd (shouldReuseRoute (Snapshot ''next'' (Some 1) JUndefined None) ex_home)) = toString (Snapshot ''next'' (Some 1) JUndefined None)"
      "routeConfig (snd (shouldReuseRoute (Snapshot ''next'' (Some 1) JUndefined None) ex_home)) = routeConfig (Snapshot ''next'' (Some 1) JUndefined None)"
      "parent (snd (shouldReuseRoute (Snapshot ''next'' (Some 1) JUndefined None) ex_home)) = parent (Snapshot ''next'' (Some 1) JUndefined None)"
    by blast+
  from a a' have "shouldReuseRoute (Snapshot ''next'' (Some 1) JUndefined None) ex_home =
     (True, Snapshot ''next'' (Some 1) (JBool True) None)"
    by (cases "shouldReuseRoute (Snapshot ''next'' (Some 1) JUndefined None) ex_home";
        cases "snd (shouldReuseRoute (Snapshot ''next'' (Some 1) JUndefined None) ex_home)")
       (simp add: ex_home_def)
  moreover from b b' have "shouldReuseRoute ex_root ex_home = (False, ex_root)"
    by (cases "shouldReuseRoute ex_root ex_home") (simp add: ex_home_def ex_root_def)
  ultimately show ?thesis by simp
qed

section \<open>Detaching and attaching the outlet\<close>

text \<open>
  The outlet never holds a component without a route: \<open>detach\<close> clears both fields and
  \<open>attach\<close> sets both.
\<close>

lemma activation_invariant:
  assumes "activated out \<noteq> None \<longrightarrow> priv_activatedRoute out \<noteq> None"
  shows "activated (snd (detach lg out)) \<noteq> None \<longrightarrow> priv_activatedRoute (snd (detach lg out)) \<noteq> None"
    and "activated (attach fin c r out) \<noteq> None \<longrightarrow> priv_activatedRoute (attach fin c r out) \<noteq> None"
  using assms by (auto simp: detach_def attach_def isActivated_def split: option.splits)

text \<open>
  Claim C9. On an outlet that is activated, with component \<open>c\<close> and route \<open>r\<close>,
  \<open>detach\<close> returns \<open>c\<close> and clears both fields, and \<open>attach\<close> of \<open>c\<close> and \<open>r\<close> after it
  sets both fields back to what they were. On an outlet that is not activated,
  \<open>detach\<close> returns \<open>undefined\<close> and changes nothing.
\<close>

theorem detach_attach_round_trip:
  "(activated out = Some c \<and> priv_activatedRoute out = Some r \<longrightarrow>
      fst (detach lg out) = Inr (Some c)
      \<and> activated (snd (detach lg out)) = None
      \<and> priv_activatedRoute (snd (detach lg out)) = None
      \<and> activated (attach fin c r (snd (detach lg out))) = activated out
      \<and> priv_activatedRoute (attach fin c r (snd (detach lg out))) = priv_activatedRoute out)
   \<and> (activated out = None \<longrightarrow> detach lg out = (Inr None, out))"
  by (auto simp: detach_def attach_def isActivated_def)

theorem detach_attach_round_trip_witness:
  "fst (detach True \<lparr>activated = Some 3, priv_activatedRoute = Some 4, effects = []\<rparr>) = Inr (Some 3)
   \<and> activated (snd (detach True \<lparr>activated = Some 3, priv_activatedRoute = Some 4, effects = []\<rparr>)) = None
   \<and> priv_activatedRoute (snd (detach True \<lparr>activated = Some 3, priv_activatedRoute = Some 4, effects = []\<rparr>)) = None
   \<and> activated (attach True 3 4
        (snd (detach True \<lparr>activated = Some 3, priv_activatedRoute = Some 4, effects = []\<rparr>))) = Some 3
   \<and> priv_activatedRoute (attach True 3 4
        (snd (detach True \<lparr>activated = Some 3, priv_activatedRoute = Some 4, effects = []\<rparr>))) = Some 4
   \<and> detach True \<lparr>activated = None, priv_activatedRoute = Some 4, effects = []\<rparr> =
       (Inr None, \<lparr>activated = None, priv_activatedRoute = Some 4, effects = []\<rparr>)"
proof -
  note t1 = detach_attach_round_trip
    [where out = "\<lparr>activated = Some 3, priv_activatedRoute = Some 4, effects = []\<rparr>"
       and c = 3 and r = 4 and lg = True and fin = True,
     THEN conjunct1, rule_format]
  note t2 = detach_attach_round_trip
    [where out = "\<lparr>activated = None, priv_activatedRoute = Some 4, effects = []\<rparr>"
       and lg = True,
     THEN conjunct2, rule_format]
  from t1 t2 show ?thesis by simp
qed

section \<open>Inserting and removing children of the action bar\<close>

lemma indexOf_absent: "x \<notin> set xs \<Longrightarrow> indexOf xs x = - 1"
  by (induction xs) (auto simp: Let_def)

lemma indexOf_first: "n \<notin> set pre \<Longrightarrow> indexOf (pre @ n # post) n = int (length pre)"
  by (induction pre) (auto simp: Let_def)

lemma splice_insert_at: "splice_insert (pre @ post) (int (length pre)) x = pre @ x # post"
  by (simp add: splice_insert_def Let_def)

lemma splice_insert_split:
  "\<exists>pre post. xs = pre @ post \<and> splice_insert xs i x = pre @ x # post"
proof -
  define s where "s = nat (if i < 0 then max (int (length xs) + i) 0 else min i (int (length xs)))"
  have "xs = take s xs @ drop s xs" by simp
  moreover have "splice_insert xs i x = take s xs @ x # drop s xs"
    by (simp add: splice_insert_def Let_def s_def)
  ultimately show ?thesis by blast
qed

lemma remove1_splice_insert: 
  assumes "x \<notin> set xs" shows "remove1 x (splice_insert xs i x) = xs"
proof -
  from splice_insert_split [of xs i x]
  obtain pre post where p: "xs = pre @ post" and q: "splice_insert xs i x = pre @ x # post"
    by (elim exE conjE)
  from assms have "x \<notin> set pre" by (simp add: p)
  then have "remove1 x (pre @ x # post) = pre @ post" by (simp add: remove1_append)
  with q have "remove1 x (splice_insert xs i x) = pre @ post" by (simp only:)
  with p show ?thesis by (simp only:)
qed

text \<open>
  What \<open>addActionItem\<close> does to the item array, for a collection whose \<open>getItems\<close>
  returns what \<open>setItems\<close> stored and whose \<open>addItem\<close> appends.
\<close>

lemma getItems_addActionItem:
  assumes set_get: "\<And>xs c. getItems t (setItems t xs c) = xs"
    and add_get: "\<And>x c. getItems t (addItem t x c) = getItems t c @ [x]"
  shows "getItems t (actionItems (addActionItem t par x nxt)) =
     (case nxt of
        None \<Rightarrow> getItems t (actionItems par) @ [x]
      | Some n \<Rightarrow> splice_insert (getItems t (actionItems par)) (indexOf (getItems t (actionItems par)) n) x)"
  by (cases nxt) (simp_all add: addActionItem_def appendActionItem_def insertActionItemBefore_def Let_def set_get add_get)

lemma addActionItem_slots:
  "navigationButton (addActionItem t par x nxt) = navigationButton par"
  "titleView (addActionItem t par x nxt) = titleView par"
  "bar_ref (addActionItem t par x nxt) = bar_ref par"
  by (cases nxt; simp add: addActionItem_def appendActionItem_def insertActionItemBefore_def Let_def)+

lemma getItems_addActionItem_splice:
  assumes set_get: "\<And>xs c. getItems t (setItems t xs c) = xs"
    and add_get: "\<And>x c. getItems t (addItem t x c) = getItems t c @ [x]"
  shows "\<exists>i. getItems t (actionItems (addActionItem t par x nxt)) =
     splice_insert (getItems t (actionItems par)) i x"
proof (cases nxt)
  case None
  have "getItems t (actionItems par) @ [x] =
      splice_insert (getItems t (actionItems par)) (int (length (getItems t (actionItems par)))) x"
    using splice_insert_at [of "getItems t (actionItems par)" "[]" x] by simp
  with None show ?thesis
    using getItems_addActionItem [of t par x nxt, OF set_get add_get] by auto
next
  case (Some n)
  then show ?thesis
    using getItems_addActionItem [of t par x nxt, OF set_get add_get] by auto
qed

text \<open>
  When \<open>next\<close> is given but is not in the collection, \<open>indexOf\<close> answers \<open>-1\<close> and
  \<open>splice\<close> counts that from the end: the item goes before the last item.
\<close>

lemma splice_before_last:
  assumes "xs \<noteq> []" shows "splice_insert xs (- 1) x = butlast xs @ [x, last xs]"
proof -
  from assms obtain ys y where xs: "xs = ys @ [y]" by (cases xs rule: rev_cases) auto
  have "nat (max (int (length (ys @ [y])) + - 1) 0) = length ys" by simp
  then have "splice_insert (ys @ [y]) (- 1) x = ys @ [x, y]"
    by (simp add: splice_insert_def Let_def)
  then show ?thesis by (simp add: xs)
qed

lemma insert_before_missing_next:
  assumes "\<And>xs c. getItems t (setItems t xs c) = xs"
    and "n \<notin> set (getItems t (actionItems bar))" and "getItems t (actionItems bar) \<noteq> []"
  shows "getItems t (actionItems (insertActionItemBefore t bar x n)) =
     butlast (getItems t (actionItems bar)) @ [x, last (getItems t (actionItems bar))]"
  using assms by (simp add: insertActionItemBefore_def Let_def indexOf_absent splice_before_last)

text \<open>
  Claim C10, as amended. Let the \<open>ActionItems\<close> collection behave as an array:
  \<open>getItems\<close> returns what \<open>setItems\<close> stored, \<open>addItem\<close> appends, \<open>removeItem\<close> removes
  the first occurrence. For every action bar and child, \<open>insertChild\<close> and then
  \<open>removeChild\<close> do this:
  \<^item> an invisible node is ignored by both;
  \<^item> a navigation button is set, then cleared to \<open>null\<close>, and nothing else of the bar
    changes (so the bar is as before when it had no navigation button);
  \<^item> an action item is appended when \<open>next\<close> is absent, and inserted immediately before
    the first occurrence of \<open>next\<close> when \<open>next\<close> is in the collection; removing it gives
    the collection back when the item was not in it before; the two slots are untouched;
  \<^item> any other view is set as the title view, then cleared to \<open>null\<close>, and nothing else
    of the bar changes.
\<close>

theorem actionBar_insert_then_remove:
  assumes set_get: "\<forall>xs c. getItems t (setItems t xs c) = xs"
    and add_get: "\<forall>x c. getItems t (addItem t x c) = getItems t c @ [x]"
    and rem_get: "\<forall>x c. getItems t (removeItem t x c) = remove1 x (getItems t c)"
    and ins: "insertChild t par child nxt = (par1, child1)"
    and rem: "removeChild t par1 child1 = (par2, child2)"
  shows "(isInvisibleNode child \<longrightarrow> par1 = par \<and> child1 = child \<and> par2 = par \<and> child2 = child)
    \<and> (\<not> isInvisibleNode child \<and> isNavigationButton child \<longrightarrow>
          navigationButton par1 = Some (view_ref child) \<and> par2 = par\<lparr>navigationButton := None\<rparr>)
    \<and> (\<not> isInvisibleNode child \<and> \<not> isNavigationButton child \<and> isActionItem child \<longrightarrow>
          (nxt = None \<longrightarrow>
             getItems t (actionItems par1) = getItems t (actionItems par) @ [view_ref child])
          \<and> (\<forall>n pre post. nxt = Some n \<and> getItems t (actionItems par) = pre @ n # post \<and> n \<notin> set pre
               \<longrightarrow> getItems t (actionItems par1) = pre @ view_ref child # n # post)
          \<and> (view_ref child \<notin> set (getItems t (actionItems par)) \<longrightarrow>
               getItems t (actionItems par2) = getItems t (actionItems par))
          \<and> navigationButton par2 = navigationButton par \<and> titleView par2 = titleView par)
    \<and> (\<not> isInvisibleNode child \<and> \<not> isNavigationButton child \<and> \<not> isActionItem child \<and> isView child \<longrightarrow>
          titleView par1 = Some (view_ref child) \<and> par2 = par\<lparr>titleView := None\<rparr>)"
proof -
  have sg: "\<And>xs c. getItems t (setItems t xs c) = xs" using set_get by blast
  have ag: "\<And>x c. getItems t (addItem t x c) = getItems t c @ [x]" using add_get by blast
  have rg: "\<And>x c. getItems t (removeItem t x c) = remove1 x (getItems t c)" using rem_get by blast
  note gi = getItems_addActionItem [of t, OF sg ag]
  have A: "isInvisibleNode child \<longrightarrow> par1 = par \<and> child1 = child \<and> par2 = par \<and> child2 = child"
    using ins rem by (auto simp: insertChild_def removeChild_def)
  have B: "\<not> isInvisibleNode child \<and> isNavigationButton child \<longrightarrow>
          navigationButton par1 = Some (view_ref child) \<and> par2 = par\<lparr>navigationButton := None\<rparr>"
    using ins rem by (auto simp: insertChild_def removeChild_def)
  have D: "\<not> isInvisibleNode child \<and> \<not> isNavigationButton child \<and> \<not> isActionItem child \<and> isView child \<longrightarrow>
          titleView par1 = Some (view_ref child) \<and> par2 = par\<lparr>titleView := None\<rparr>"
    using ins rem by (auto simp: insertChild_def removeChild_def)
  have C: "(nxt = None \<longrightarrow>
             getItems t (actionItems par1) = getItems t (actionItems par) @ [view_ref child])
          \<and> (\<forall>n pre post. nxt = Some n \<and> getItems t (actionItems par) = pre @ n # post \<and> n \<notin> set pre
               \<longrightarrow> getItems t (actionItems par1) = pre @ view_ref child # n # post)
          \<and> (view_ref child \<notin> set (getItems t (actionItems par)) \<longrightarrow>
               getItems t (actionItems par2) = getItems t (actionItems par))
          \<and> navigationButton par2 = navigationButton par \<and> titleView par2 = titleView par"
    if a: "\<not> isInvisibleNode child" "\<not> isNavigationButton child" "isActionItem child"
  proof -
    from a ins have i1: "par1 = addActionItem t par (view_ref child) nxt"
      and i1c: "child1 = child\<lparr>parentNode := Some (bar_ref par)\<rparr>"
      by (simp_all add: insertChild_def)
    from a i1c rem have i2: "par2 = par1\<lparr>actionItems := removeItem t (view_ref child) (actionItems par1)\<rparr>"
      by (simp add: removeChild_def)
    have c1: "nxt = None \<longrightarrow>
             getItems t (actionItems par1) = getItems t (actionItems par) @ [view_ref child]"
      using gi [of par "view_ref child" nxt] by (auto simp: i1)
    have c2: "\<forall>n pre post. nxt = Some n \<and> getItems t (actionItems par) = pre @ n # post \<and> n \<notin> set pre
               \<longrightarrow> getItems t (actionItems par1) = pre @ view_ref child # n # post"
    proof (intro allI impI)
      fix n pre post
      assume h: "nxt = Some n \<and> getItems t (actionItems par) = pre @ n # post \<and> n \<notin> set pre"
      then have "getItems t (actionItems par1) =
          splice_insert (pre @ n # post) (indexOf (pre @ n # post) n) (view_ref child)"
        using gi [of par "view_ref child" nxt] by (auto simp: i1)
      also have "\<dots> = pre @ view_ref child # n # post"
        using h by (simp add: indexOf_first splice_insert_at)
      finally show "getItems t (actionItems par1) = pre @ view_ref child # n # post" .
    qed
    have c3: "view_ref child \<notin> set (getItems t (actionItems par)) \<longrightarrow>
               getItems t (actionItems par2) = getItems t (actionItems par)"
    proof
      assume nin: "view_ref child \<notin> set (getItems t (actionItems par))"
      obtain i where "getItems t (actionItems par1) =
          splice_insert (getItems t (actionItems par)) i (view_ref child)"
        using getItems_addActionItem_splice [of t par "view_ref child" nxt, OF sg ag] i1 by blast
      then show "getItems t (actionItems par2) = getItems t (actionItems par)"
        using nin by (simp add: i2 rg remove1_splice_insert)
    qed
    have c4: "navigationButton par2 = navigationButton par \<and> titleView par2 = titleView par"
      by (simp add: i1 i2 addActionItem_slots)
    from c1 c2 c3 c4 show ?thesis by blast
  qed
  from A B C D show ?thesis by blast
qed

theorem actionBar_insert_then_remove_witness:
  "fst (insertChild ex_items (ex_bar None [1, 2]) (ex_view 7 True False False) None) = ex_bar None [1, 2]
   \<and> navigationButton (fst (insertChild ex_items (ex_bar (Some 5) [1, 2]) (ex_view 7 False True True) None))
       = Some 7
   \<and> fst (removeChild ex_items
        (fst (insertChild ex_items (ex_bar (Some 5) [1, 2]) (ex_view 7 False True True) None))
        (snd (insertChild ex_items (ex_bar (Some 5) [1, 2]) (ex_view 7 False True True) None)))
       = ex_bar None [1, 2]
   \<and> actionItems (fst (insertChild ex_items (ex_bar None [1, 2]) (ex_view 7 False False True) (Some 2)))
       = [1, 7, 2]
   \<and> actionItems (fst (removeChild ex_items
        (fst (insertChild ex_items (ex_bar None [1, 2]) (ex_view 7 False False True) (Some 2)))
        (snd (insertChild ex_items (ex_bar None [1, 2]) (ex_view 7 False False True) (Some 2)))))
       = [1, 2]
   \<and> actionItems (fst (insertChild ex_items (ex_bar None [1, 2]) (ex_view 7 False False True) None))
       = [1, 2, 7]
   \<and> titleView (fst (insertChild ex_items (ex_bar None [1, 2]) (ex_view 7 False False False) None))
       = Some 7
   \<and> titleView (fst (removeChild ex_items
        (fst (insertChild ex_items (ex_bar None [1, 2]) (ex_view 7 False False False) None))
        (snd (insertChild ex_items (ex_bar None [1, 2]) (ex_view 7 False False False) None))))
       = None"
proof -
  let ?inv = "ex_view 7 True False False" and ?nav = "ex_view 7 False True True"
  let ?itm = "ex_view 7 False False True" and ?ttl = "ex_view 7 False False False"
  note th = actionBar_insert_then_remove [OF ex_items_laws prod.collapse [symmetric] prod.collapse [symmetric]]
  note a = th [where par = "ex_bar None [1, 2]" and child = "?inv" and nxt = "None", THEN conjunct1, rule_format]
  note b = th [where par = "ex_bar (Some 5) [1, 2]" and child = "?nav" and nxt = "None", THEN conjunct2, THEN conjunct1, rule_format]
  note c = th [where par = "ex_bar None [1, 2]" and child = "?itm" and nxt = "Some 2", THEN conjunct2, THEN conjunct2, THEN conjunct1, rule_format]
  note c' = th [where par = "ex_bar None [1, 2]" and child = "?itm" and nxt = "None", THEN conjunct2, THEN conjunct2, THEN conjunct1, rule_format]
  note d = th [where par = "ex_bar None [1, 2]" and child = "?ttl" and nxt = "None", THEN conjunct2, THEN conjunct2, THEN conjunct2, rule_format]
  have ha: "isInvisibleNode ?inv" by (simp add: ex_view_def)
  have hb: "\<not> isInvisibleNode ?nav \<and> isNavigationButton ?nav" by (simp add: ex_view_def)
  have hc: "\<not> isInvisibleNode ?itm \<and> \<not> isNavigationButton ?itm \<and> isActionItem ?itm"
    by (simp add: ex_view_def)
  have hd: "\<not> isInvisibleNode ?ttl \<and> \<not> isNavigationButton ?ttl \<and> \<not> isActionItem ?ttl \<and> isView ?ttl"
    by (simp add: ex_view_def)
  have gi: "\<And>c. getItems ex_items c = c" by (simp add: ex_items_def)
  from a [OF ha] have A: "fst (insertChild ex_items (ex_bar None [1, 2]) ?inv None) = ex_bar None [1, 2]"
    by simp
  from b [OF hb] have B1: "navigationButton (fst (insertChild ex_items (ex_bar (Some 5) [1, 2]) ?nav None)) = Some 7"
    and B2: "fst (removeChild ex_items
        (fst (insertChild ex_items (ex_bar (Some 5) [1, 2]) ?nav None))
        (snd (insertChild ex_items (ex_bar (Some 5) [1, 2]) ?nav None))) = ex_bar None [1, 2]"
    by (simp_all add: ex_view_def ex_bar_def)
  have prem: "Some (2::nat) = Some 2 \<and>
      getItems ex_items (actionItems (ex_bar None [1, 2])) = [1] @ 2 # [] \<and> (2::nat) \<notin> set [1]"
    by (simp add: ex_items_def ex_bar_def)
  have nin: "view_ref ?itm \<notin> set (getItems ex_items (actionItems (ex_bar None [1, 2])))"
    by (simp add: ex_items_def ex_bar_def ex_view_def)
  note c2 = c [OF hc, THEN conjunct2, THEN conjunct1, rule_format, of 2 "[1]" "[]", OF prem]
  note c3 = c [OF hc, THEN conjunct2, THEN conjunct2, THEN conjunct1, rule_format, OF nin]
  note c1 = c' [OF hc, THEN conjunct1, rule_format, OF refl]
  from c2 have C1: "actionItems (fst (insertChild ex_items (ex_bar None [1, 2]) ?itm (Some 2))) = [1, 7, 2]"
    by (simp add: gi ex_view_def)
  from c3 have C2: "actionItems (fst (removeChild ex_items
        (fst (insertChild ex_items (ex_bar None [1, 2]) ?itm (Some 2)))
        (snd (insertChild ex_items (ex_bar None [1, 2]) ?itm (Some 2))))) = [1, 2]"
    by (simp add: gi ex_bar_def)
  from c1 have C3: "actionItems (fst (insertChild ex_items (ex_bar None [1, 2]) ?itm None)) = [1, 2, 7]"
    by (simp add: gi ex_bar_def ex_view_def)
  from d [OF hd] have D1: "titleView (fst (insertChild ex_items (ex_bar None [1, 2]) ?ttl None)) = Some 7"
    and D2: "titleView (fst (removeChild ex_items
        (fst (insertChild ex_items (ex_bar None [1, 2]) ?ttl None))
        (snd (insertChild ex_items (ex_bar None [1, 2]) ?ttl None)))) = None"
    by (simp_all add: ex_view_def)
  from A B1 B2 C1 C2 C3 D1 D2 show ?thesis by (intro conjI)
qed

text \<open>
  The round trip does not restore every action bar: a bar that already has a navigation
  button loses it, since \<open>removeChild\<close> clears the slot and nothing remembers what it
  held before.
\<close>

theorem actionBar_restore_counterexample:
  "fst (removeChild ex_items
          (fst (insertChild ex_items (ex_bar (Some 5) []) (ex_view 7 False True True) None))
          (snd (insertChild ex_items (ex_bar (Some 5) []) (ex_view 7 False True True) None)))
     = ex_bar None []
   \<and> ex_bar None [] \<noteq> ex_bar (Some 5) []"
  by (simp add: insertChild_def removeChild_def ex_bar_def ex_view_def)

end
